theory Spec2Isabelle
  imports Main
begin

section \<open>Python values used by hetio\<close>

text \<open>
  Strings are modelled as HOL strings over ASCII: \<open>str.lower\<close> and \<open>str.upper\<close> change
  the 26 Latin letters only, as Python does on ASCII text, and keep the length of the
  string. Kind names outside ASCII are not covered by this development.
\<close>

definition ascii_uppercase :: string where
  "ascii_uppercase = ''ABCDEFGHIJKLMNOPQRSTUVWXYZ''"

definition ascii_lowercase :: string where
  "ascii_lowercase = ''abcdefghijklmnopqrstuvwxyz''"

definition lower_char :: "char \<Rightarrow> char" where
  "lower_char c = (case map_of (zip ascii_uppercase ascii_lowercase) c of Some l \<Rightarrow> l | None \<Rightarrow> c)"

definition upper_char :: "char \<Rightarrow> char" where
  "upper_char c = (case map_of (zip ascii_lowercase ascii_uppercase) c of Some u \<Rightarrow> u | None \<Rightarrow> c)"

text \<open>\<open>s.lower()\<close> and \<open>s.upper()\<close>.\<close>

definition lower :: "string \<Rightarrow> string" where
  "lower s = map lower_char s"

definition upper :: "string \<Rightarrow> string" where
  "upper s = map upper_char s"

text \<open>
  \<open>s.isupper()\<close>: no lowercase character and at least one uppercase character;
  \<open>s.islower()\<close> is the mirror image. Both are false on the empty string and on a
  string without letters.
\<close>

definition isupper :: "string \<Rightarrow> bool" where
  "isupper s = (list_ex (\<lambda>c. c \<in> set ascii_uppercase) s \<and> \<not> list_ex (\<lambda>c. c \<in> set ascii_lowercase) s)"

definition islower :: "string \<Rightarrow> bool" where
  "islower s = (list_ex (\<lambda>c. c \<in> set ascii_lowercase) s \<and> \<not> list_ex (\<lambda>c. c \<in> set ascii_uppercase) s)"

text \<open>
  \<open>s.title()\<close>: a letter that follows a letter is lowercased, any other letter is
  uppercased; the flag is Python's \<open>previous_is_cased\<close>.
\<close>

fun title_from :: "bool \<Rightarrow> string \<Rightarrow> string" where
  "title_from previous_is_cased [] = []"
| "title_from previous_is_cased (c # s) =
     (if c \<in> set ascii_lowercase then
        (if previous_is_cased then c else upper_char c) # title_from True s
      else if c \<in> set ascii_uppercase then
        (if previous_is_cased then lower_char c else c) # title_from True s
      else c # title_from False s)"

definition title :: "string \<Rightarrow> string" where
  "title s = title_from False s"

text \<open>\<open>'{}'.format(n)\<close> for a non-negative integer: its decimal digits.\<close>

definition digit_char :: "nat \<Rightarrow> char" where
  "digit_char n = ''0123456789'' ! n"

fun str_of_nat :: "nat \<Rightarrow> string" where
  "str_of_nat n = (if n < 10 then [digit_char n] else str_of_nat (n div 10) @ [digit_char (n mod 10)])"

declare str_of_nat.simps [simp del]

definition newline :: string where
  "newline = [CHR 0x0A]"

text \<open>\<open>sep.join(xs)\<close>.\<close>

fun join :: "string \<Rightarrow> string list \<Rightarrow> string" where
  "join sep [] = []"
| "join sep [x] = x"
| "join sep (x # y # ys) = x @ sep @ join sep (y # ys)"

text \<open>The exceptions that the modelled code can raise.\<close>

datatype py_error = IndexError | AssertionError

text \<open>
  A Python \<open>dict\<close> is an association list in insertion order. \<open>d[k] = v\<close> overwrites
  the value of an existing key where it stands and appends a new key at the end.
\<close>

type_synonym ('k, 'v) dict = "('k \<times> 'v) list"

fun dict_set :: "'k \<Rightarrow> 'v \<Rightarrow> ('k, 'v) dict \<Rightarrow> ('k, 'v) dict" where
  "dict_set k v [] = [(k, v)]"
| "dict_set k v ((k', v') # d) = (if k' = k then (k, v) # d else (k', v') # dict_set k v d)"

text \<open>\<open>d.setdefault(k, list()).append(v)\<close>.\<close>

fun setdefault_append :: "'k \<Rightarrow> 'v \<Rightarrow> ('k, 'v list) dict \<Rightarrow> ('k, 'v list) dict" where
  "setdefault_append k v [] = [(k, [v])]"
| "setdefault_append k v ((k', vs) # d) =
     (if k' = k then (k', vs @ [v]) # d else (k', vs) # setdefault_append k v d)"

section \<open>abbreviation.py\<close>

subsection \<open>get_duplicates\<close>

text \<open>
  The elements that occur more than once. Python returns a set; the model returns a list
  without repetitions, of which only membership and emptiness are ever used.
\<close>

definition get_duplicates :: "'a list \<Rightarrow> 'a list" where
  "get_duplicates iterable = filter (\<lambda>key. 1 < count_list iterable key) (remdups iterable)"

subsection \<open>find_abbrevs\<close>

text \<open>
  The dict comprehension \<open>{kind: kind[0].lower() for kind in kinds}\<close>; \<open>kind[0]\<close> raises
  \<open>IndexError\<close> on an empty name.
\<close>

fun init_abbrevs :: "string list \<Rightarrow> (string, string) dict \<Rightarrow> py_error + (string, string) dict" where
  "init_abbrevs [] d = Inr d"
| "init_abbrevs (kind # kinds) d =
     (case kind of
        [] \<Rightarrow> Inl IndexError
      | c # _ \<Rightarrow> init_abbrevs kinds (dict_set kind (lower [c]) d))"

text \<open>
  One pass of the \<open>for\<close> loop body over an item of the snapshot
  \<open>list(kind_to_abbrev.items())\<close>. The index \<open>len(abbrev)\<close> is in range under the guard.
\<close>

definition extend_abbrev ::
  "string list \<Rightarrow> string \<times> string \<Rightarrow> (string, string) dict \<Rightarrow> (string, string) dict" where
  "extend_abbrev duplicates item d =
     (case item of (kind, abbrev) \<Rightarrow>
        if abbrev \<in> set duplicates \<and> length abbrev < length kind
        then dict_set kind (abbrev @ lower [kind ! length abbrev]) d
        else d)"

text \<open>
  The \<open>while duplicates:\<close> loop. It may run forever, so it is a partial function:
  \<open>None\<close> means that the loop does not return.
\<close>

partial_function (option) find_abbrevs_while ::
  "(string, string) dict \<Rightarrow> string list \<Rightarrow> (string, string) dict option" where
  "find_abbrevs_while kind_to_abbrev duplicates =
     (if duplicates \<noteq> [] then
        (let kind_to_abbrev' = fold (extend_abbrev duplicates) kind_to_abbrev kind_to_abbrev
         in find_abbrevs_while kind_to_abbrev' (get_duplicates (map snd kind_to_abbrev')))
      else Some kind_to_abbrev)"

declare find_abbrevs_while.simps [code]

definition find_abbrevs :: "string list \<Rightarrow> (py_error + (string, string) dict) option" where
  "find_abbrevs kinds =
     (case init_abbrevs kinds [] of
        Inl e \<Rightarrow> Some (Inl e)
      | Inr kind_to_abbrev \<Rightarrow>
          map_option Inr
            (find_abbrevs_while kind_to_abbrev (get_duplicates (map snd kind_to_abbrev))))"

subsection \<open>create_abbreviations\<close>

text \<open>
  The metagraph class lives in \<open>hetio.hetnet\<close>; the record holds what the two functions
  of this module read from it: the keys of \<open>node_dict\<close> and of \<open>edge_dict\<close> (edge
  identifiers: source kind, target kind, edge kind, direction), the results of
  \<open>get_nodes()\<close> and \<open>get_edges(exclude_inverts=False)\<close>, and \<open>kind_to_abbrev\<close>.
\<close>

record metanode =
  metanode_identifier :: string
  metanode_abbrev :: string

record metaedge =
  metaedge_get_id :: "string \<times> string \<times> string \<times> string"
  metaedge_kind :: string
  metaedge_kind_abbrev :: string
  metaedge_get_abbrev :: string

record metagraph =
  metagraph_node_dict_keys :: "string list"
  metagraph_edge_dict_keys :: "(string \<times> string \<times> string \<times> string) list"
  metagraph_get_nodes :: "metanode list"
  metagraph_get_edges :: "metaedge list"
  metagraph_kind_to_abbrev :: "(string, string) dict"





subsection \<open>validate_abbreviations\<close>

text \<open>
  The function prints its findings and returns a flag; the model returns the flag and
  the list of printed diagnostics. Python sets are lists without repetitions.
\<close>

datatype diagnostic =
    DuplicatedKinds "string list"
  | DuplicatedMetanodeAbbrevs "string list"
  | LowercaseMetanodeAbbrev string
  | UppercaseMetaedgeAbbrev string
  | DuplicatedMetaedgeAbbrevs "string list"

definition report :: "bool \<Rightarrow> diagnostic \<Rightarrow> bool \<times> diagnostic list \<Rightarrow> bool \<times> diagnostic list" where
  "report violated msg st = (if violated then (False, snd st @ [msg]) else st)"

definition validate_abbreviations :: "metagraph \<Rightarrow> bool \<times> diagnostic list" where
  "validate_abbreviations mg =
     (let st = (True, []);
          metanodes = remdups (metagraph_get_nodes mg);
          metaedges = remdups (metagraph_get_edges mg);
          metanode_kinds = remdups (map metanode_identifier metanodes);
          metaedge_kinds = remdups (map metaedge_kind metaedges);
          duplicated_kinds = filter (\<lambda>k. k \<in> set metaedge_kinds) metanode_kinds;
          st = report (duplicated_kinds \<noteq> []) (DuplicatedKinds duplicated_kinds) st;
          metanode_kind_to_abbrev = filter (\<lambda>(k, v). k \<in> set metanode_kinds) (metagraph_kind_to_abbrev mg);
          duplicated_metanode_abbrevs = get_duplicates (map snd metanode_kind_to_abbrev);
          st = report (duplicated_metanode_abbrevs \<noteq> [])
                 (DuplicatedMetanodeAbbrevs duplicated_metanode_abbrevs) st;
          st = fold (\<lambda>metanode. report (\<not> isupper (metanode_abbrev metanode))
                       (LowercaseMetanodeAbbrev (metanode_abbrev metanode))) metanodes st;
          st = fold (\<lambda>metaedge. report (\<not> islower (metaedge_kind_abbrev metaedge))
                       (UppercaseMetaedgeAbbrev (metaedge_kind_abbrev metaedge))) metaedges st;
          metaedge_abbrevs = map metaedge_get_abbrev metaedges;
          duplicated_metaedge_abbrevs = get_duplicates metaedge_abbrevs;
          st = report (duplicated_metaedge_abbrevs \<noteq> [])
                 (DuplicatedMetaedgeAbbrevs duplicated_metaedge_abbrevs) st
      in st)"

section \<open>neo4j.py\<close>

subsection \<open>Labels, relationship types and metarels\<close>

text \<open>\<open>as_label\<close>, applied to \<open>str(metanode)\<close>.\<close>

definition as_label :: "string \<Rightarrow> string" where
  "as_label metanode = filter (\<lambda>c. c \<noteq> CHR '' '') (title metanode)"

text \<open>
  \<open>as_type\<close>. The helper \<open>arrange_metaege\<close> is imported from a module version that is
  not part of the sources at hand, so it is a parameter. \<open>re.sub('[<>]', '', abbrev)\<close>
  drops the two angle brackets.
\<close>

definition as_type :: "(string \<Rightarrow> string) \<Rightarrow> metaedge \<Rightarrow> string" where
  "as_type arrange_metaege metaedge =
     (let rel_type = map (\<lambda>c. if c = CHR '' '' then CHR ''_'' else c) (upper (metaedge_kind metaedge));
          abbrev = filter (\<lambda>c. c \<noteq> CHR ''<'' \<and> c \<noteq> CHR ''>'')
                     (arrange_metaege (metaedge_get_abbrev metaedge))
      in rel_type @ ''_'' @ abbrev)"

text \<open>A metarel: source label, target label, relationship type, direction.\<close>

type_synonym metarel = "string \<times> string \<times> string \<times> string"

definition metaedge_to_metarel :: "(string \<Rightarrow> string) \<Rightarrow> metaedge \<Rightarrow> metarel" where
  "metaedge_to_metarel arrange_metaege metaedge =
     (case metaedge_get_id metaedge of (source, target, kind, direction) \<Rightarrow>
        (as_label source, as_label target, as_type arrange_metaege metaedge, direction))"

text \<open>
  \<open>metapath_to_metarels\<close>: one metarel per metaedge of the metapath, in order. The
  source has no branch that raises here.
\<close>

definition metapath_to_metarels :: "(string \<Rightarrow> string) \<Rightarrow> metaedge list \<Rightarrow> metarel list" where
  "metapath_to_metarels arrange_metaege metapath = map (metaedge_to_metarel arrange_metaege) metapath"

text \<open>
  Whether consecutive metaedges of a metapath share their connecting node kind. The
  source never computes this; the predicate states the precondition that the
  specification names.
\<close>

fun chains :: "metaedge list \<Rightarrow> bool" where
  "chains (e1 # e2 # es) =
     (fst (snd (metaedge_get_id e1)) = fst (metaedge_get_id e2) \<and> chains (e2 # es))"
| "chains es = True"

subsection \<open>cypher_path\<close>

definition dir0 :: "string \<Rightarrow> string" where
  "dir0 direction = (if direction = ''backward'' then ''<-'' else ''-'')"

definition dir1 :: "string \<Rightarrow> string" where
  "dir1 direction = (if direction = ''forward'' then ''->'' else ''-'')"

text \<open>
  The text that one iteration of the loop appends to \<open>q\<close>; \<open>n\<close> is \<open>len(metarels)\<close>.
\<close>

definition cypher_step :: "nat \<Rightarrow> nat \<Rightarrow> metarel \<Rightarrow> string" where
  "cypher_step n i metarel =
     (case metarel of (source_label, target_label, rel_type, direction) \<Rightarrow>
        dir0 direction @ ''[:'' @ rel_type @ '']'' @ dir1 direction
        @ ''(n'' @ str_of_nat (i + 1)
        @ (if i + 1 = n then '':'' @ target_label else []) @ '')'')"

fun cypher_path_loop :: "nat \<Rightarrow> nat \<Rightarrow> metarel list \<Rightarrow> string \<Rightarrow> string" where
  "cypher_path_loop n i [] q = q"
| "cypher_path_loop n i (metarel # metarels) q =
     cypher_path_loop n (i + 1) metarels (q @ cypher_step n i metarel)"

text \<open>\<open>metarels[0][0]\<close> raises \<open>IndexError\<close> on an empty sequence.\<close>

definition cypher_path :: "metarel list \<Rightarrow> py_error + string" where
  "cypher_path metarels =
     (case metarels of
        [] \<Rightarrow> Inl IndexError
      | (source_label, _) # _ \<Rightarrow>
          Inr (cypher_path_loop (length metarels) 0 metarels (''(n0:'' @ source_label @ '')'')))"

subsection \<open>format_expanded_clause\<close>

text \<open>
  The argument is either the iterator returned by \<open>itertools.combinations\<close>, which is
  always truthy, or a list, which is falsy when empty.
\<close>

datatype 'a iterable = Iterator "'a list" | PyList "'a list"

fun items_of :: "'a iterable \<Rightarrow> 'a list" where
  "items_of (Iterator xs) = xs"
| "items_of (PyList xs) = xs"

fun truthy :: "'a iterable \<Rightarrow> bool" where
  "truthy (Iterator xs) = True"
| "truthy (PyList xs) = (xs \<noteq> [])"

definition pair_str :: "nat \<times> nat \<Rightarrow> string" where
  "pair_str p = (case p of (a, b) \<Rightarrow> ''n'' @ str_of_nat a @ '' = n'' @ str_of_nat b)"

definition format_expanded_clause :: "(nat \<times> nat) iterable \<Rightarrow> string" where
  "format_expanded_clause pairs =
     (if \<not> truthy pairs then []
      else newline @ ''AND NOT ('' @ join '' OR '' (map pair_str (items_of pairs)) @ '')'')"

subsection \<open>construct_dwpc_query\<close>

text \<open>\<open>itertools.combinations(xs, 2)\<close>.\<close>

fun combinations2 :: "'a list \<Rightarrow> ('a \<times> 'a) list" where
  "combinations2 [] = []"
| "combinations2 (x # xs) = map (Pair x) xs @ combinations2 xs"

text \<open>
  The values that callers pass as \<open>unique_nodes\<close>; \<open>Other\<close> is any value that is
  neither a \<open>bool\<close> nor a \<open>str\<close>.
\<close>

datatype py_value = Bool bool | Str string | Other

definition nested_clause :: string where
  "nested_clause =
     newline @ ''AND ALL (x IN nodes(paths) WHERE size(filter(z IN nodes(paths) WHERE z = x)) = 1)''"

definition expanded_pairs :: "metarel list \<Rightarrow> (nat \<times> nat) list" where
  "expanded_pairs metarels = combinations2 [0..<length metarels + 1]"

text \<open>\<open>labels\<close>; \<open>metarels[-1][1]\<close> raises \<open>IndexError\<close> on an empty sequence.\<close>

definition node_labels :: "metarel list \<Rightarrow> py_error + string list" where
  "node_labels metarels =
     (if metarels = [] then Inl IndexError
      else Inr (map fst metarels @ [fst (snd (last metarels))]))"

definition label_to_nodes :: "string list \<Rightarrow> (string, nat list) dict" where
  "label_to_nodes labels = fold (\<lambda>(i, label). setdefault_append label i) (enumerate 0 labels) []"

definition labeled_pairs :: "string list \<Rightarrow> (nat \<times> nat) list" where
  "labeled_pairs labels = concat (map (\<lambda>(label, nodes). combinations2 nodes) (label_to_nodes labels))"

text \<open>The branch on \<open>unique_nodes\<close> (the unique node constraint).\<close>

definition unique_nodes_query :: "py_value \<Rightarrow> metarel list \<Rightarrow> py_error + string" where
  "unique_nodes_query unique_nodes metarels =
     (if unique_nodes = Bool True \<or> unique_nodes = Str ''nested'' then Inr nested_clause
      else if unique_nodes = Str ''expanded'' then
        Inr (format_expanded_clause (Iterator (expanded_pairs metarels)))
      else if unique_nodes = Str ''labeled'' then
        (case node_labels metarels of
           Inl e \<Rightarrow> Inl e
         | Inr labels \<Rightarrow> Inr (format_expanded_clause (PyList (labeled_pairs labels))))
      else if unique_nodes = Bool False then Inr []
      else Inl AssertionError)"

definition degree_str :: "nat \<Rightarrow> metarel \<Rightarrow> string" where
  "degree_str i metarel =
     (case metarel of (source_label, target_label, rel_type, direction) \<Rightarrow>
        ''size((n'' @ str_of_nat i @ '')'' @ dir0 direction @ ''[:'' @ rel_type @ '']''
        @ dir1 direction @ ''()),'' @ newline
        @ ''size(()'' @ dir0 direction @ ''[:'' @ rel_type @ '']'' @ dir1 direction
        @ ''(n'' @ str_of_nat (i + 1) @ ''))'')"

definition degree_query :: "metarel list \<Rightarrow> string" where
  "degree_query metarels =
     join ('','' @ newline) (map (\<lambda>(i, metarel). degree_str i metarel) (enumerate 0 metarels))"

definition using_query :: "bool \<Rightarrow> string \<Rightarrow> metarel list \<Rightarrow> string" where
  "using_query use_index property metarels =
     (if use_index then
        ''USING INDEX n0:'' @ fst (hd metarels) @ ''('' @ property @ '')'' @ newline
        @ ''USING INDEX n'' @ str_of_nat (length metarels) @ '':'' @ fst (snd (last metarels))
        @ ''('' @ property @ '')'' @ newline
      else [])"

text \<open>
  The final template, after \<open>textwrap.dedent\<close> and \<open>format\<close>; the line continuation
  before the closing quotes leaves the eight spaces of the last source line at the end
  of the text.
\<close>

definition query_text :: "string \<Rightarrow> string \<Rightarrow> string \<Rightarrow> string \<Rightarrow> nat \<Rightarrow> string \<Rightarrow> string" where
  "query_text metapath_query using_q unique_q degree_q len property =
     ''MATCH paths = '' @ metapath_query @ newline
     @ using_q @ ''WHERE n0.'' @ property @ '' = { source }'' @ newline
     @ ''AND n'' @ str_of_nat len @ ''.'' @ property @ '' = { target }'' @ unique_q @ newline
     @ ''WITH'' @ newline
     @ ''['' @ newline
     @ degree_q @ newline
     @ ''] AS degrees, paths'' @ newline
     @ ''RETURN'' @ newline
     @ ''count(paths) AS PC,'' @ newline
     @ ''sum(reduce(pdp = 1.0, d in degrees| pdp * d ^ -{ w })) AS DWPC        ''"

text \<open>
  \<open>construct_dwpc_query(metarels, property, using, unique_nodes)\<close> on a sequence of
  metarels (a \<open>MetaPath\<close> argument is first converted by \<open>metapath_to_metarels\<close>). The
  fragments are computed in the order of the source, so the first error wins; the
  index hints are built after \<open>cypher_path\<close> has returned, hence on a non-empty sequence.
\<close>

definition construct_dwpc_query :: "metarel list \<Rightarrow> string \<Rightarrow> bool \<Rightarrow> py_value \<Rightarrow> py_error + string" where
  "construct_dwpc_query metarels property use_index unique_nodes =
     (case cypher_path metarels of
        Inl e \<Rightarrow> Inl e
      | Inr metapath_query \<Rightarrow>
          (let degree_q = degree_query metarels;
               using_q = using_query use_index property metarels
           in case unique_nodes_query unique_nodes metarels of
                Inl e \<Rightarrow> Inl e
              | Inr unique_q \<Rightarrow>
                  Inr (query_text metapath_query using_q unique_q degree_q (length metarels) property)))"

section \<open>Notions used to state and prove the properties\<close>

text \<open>
  None of the following is computed by the source; they describe its runs. The item
  of \<open>kind_to_abbrev\<close> after one pass of the \<open>for\<close> loop of \<open>find_abbrevs\<close>:
\<close>

definition extended :: "string list \<Rightarrow> string \<times> string \<Rightarrow> string \<times> string" where
  "extended duplicates item =
     (case item of (kind, abbrev) \<Rightarrow>
        if abbrev \<in> set duplicates \<and> length abbrev < length kind
        then (kind, abbrev @ lower [kind ! length abbrev])
        else (kind, abbrev))"

text \<open>An abbreviation that is a non-empty lowercased prefix of its kind name:\<close>

definition prefix_token :: "string \<times> string \<Rightarrow> bool" where
  "prefix_token item =
     (case item of (kind, abbrev) \<Rightarrow>
        abbrev \<noteq> [] \<and> length abbrev \<le> length kind \<and> abbrev = lower (take (length abbrev) kind))"




section \<open>Properties of find_abbrevs\<close>

lemma lower_simps: "lower [] = []" "lower (c # s) = lower_char c # lower s"
  by (simp_all add: lower_def)

lemma length_lower [simp]: "length (lower s) = length s"
  by (simp add: lower_def)

text \<open>
  A state in which some abbreviation is duplicated and the pass over the items changes
  nothing is never left: the loop does not return from it.
\<close>

lemma find_abbrevs_while_stuck:
  assumes "duplicates \<noteq> []"
    and "fold (extend_abbrev duplicates) d d = d"
    and "get_duplicates (map snd d) = duplicates"
  shows "find_abbrevs_while d duplicates = None"
proof (cases "find_abbrevs_while d duplicates")
  case None
  then show ?thesis .
next
  case (Some y)
  have "\<not> (d = d \<and> duplicates = duplicates)"
  proof (rule find_abbrevs_while.raw_induct[where P = "\<lambda>d' dups' y'. \<not> (d' = d \<and> dups' = duplicates)", OF _ Some])
    fix f d' dups' y'
    assume IH: "\<And>a b y. f a b = Some y \<Longrightarrow> \<not> (a = d \<and> b = duplicates)"
      and body: "(if dups' \<noteq> [] then
        (let kind_to_abbrev' = fold (extend_abbrev dups') d' d'
         in f kind_to_abbrev' (get_duplicates (map snd kind_to_abbrev')))
      else Some d') = Some y'"
    show "\<not> (d' = d \<and> dups' = duplicates)"
    proof
      assume eq: "d' = d \<and> dups' = duplicates"
      with body assms have "f d duplicates = Some y'"
        by (simp add: Let_def)
      from IH[OF this] show False by simp
    qed
  qed
  then show ?thesis by simp
qed

text \<open>
  C5 (as the code behaves). On the kind names gene, disease and drug the first pass
  extends both names that share the token d, so the result is g, di, dr, in every order
  of the input; disease does not keep the token d.
\<close>

theorem find_abbrevs_gene_disease_drug:
  "find_abbrevs [''gene'', ''disease'', ''drug'']
     = Some (Inr [(''gene'', ''g''), (''disease'', ''di''), (''drug'', ''dr'')])
   \<and> find_abbrevs [''gene'', ''drug'', ''disease'']
     = Some (Inr [(''gene'', ''g''), (''drug'', ''dr''), (''disease'', ''di'')])
   \<and> find_abbrevs [''disease'', ''gene'', ''drug'']
     = Some (Inr [(''disease'', ''di''), (''gene'', ''g''), (''drug'', ''dr'')])
   \<and> find_abbrevs [''disease'', ''drug'', ''gene'']
     = Some (Inr [(''disease'', ''di''), (''drug'', ''dr''), (''gene'', ''g'')])
   \<and> find_abbrevs [''drug'', ''gene'', ''disease'']
     = Some (Inr [(''drug'', ''dr''), (''gene'', ''g''), (''disease'', ''di'')])
   \<and> find_abbrevs [''drug'', ''disease'', ''gene'']
     = Some (Inr [(''drug'', ''dr''), (''disease'', ''di''), (''gene'', ''g'')])"
  by (intro conjI; code_simp)

text \<open>
  C5 (as stated) fails: the run on gene, disease, drug does not leave disease with the
  token d.
\<close>

theorem find_abbrevs_gene_disease_drug_counterexample:
  "\<not> (\<exists>m. find_abbrevs [''gene'', ''disease'', ''drug''] = Some (Inr m)
          \<and> map_of m ''disease'' = Some ''d'')"
proof -
  have "find_abbrevs [''gene'', ''disease'', ''drug'']
     = Some (Inr [(''gene'', ''g''), (''disease'', ''di''), (''drug'', ''dr'')])"
    by code_simp
  then show ?thesis by simp
qed

text \<open>
  C2 (the code at the failing input). On the two names a and A both tokens are a and
  neither can be extended, so the loop never ends: \<open>find_abbrevs\<close> does not return.
\<close>

theorem find_abbrevs_case_variants_diverges: "find_abbrevs [''a'', ''A''] = None"
proof -
  have "find_abbrevs_while [(''a'', ''a''), (''A'', ''a'')] [''a''] = None"
    by (rule find_abbrevs_while_stuck) (simp_all add: extend_abbrev_def get_duplicates_def)
  then show ?thesis
    by (simp add: find_abbrevs_def get_duplicates_def lower_simps lower_char_def
        ascii_uppercase_def ascii_lowercase_def)
qed

section \<open>Properties of the query compiler\<close>

subsection \<open>Auxiliary facts\<close>

lemma upper_simps: "upper [] = []" "upper (c # s) = upper_char c # upper s"
  by (simp_all add: upper_def)

lemmas char_eval = lower_char_def upper_char_def ascii_uppercase_def ascii_lowercase_def

lemma str_of_nat_small [simp]:
  "str_of_nat 0 = ''0''" "str_of_nat 1 = ''1''" "str_of_nat 2 = ''2''" "str_of_nat 3 = ''3''"
  "str_of_nat (Suc 0) = ''1''" "str_of_nat (Suc (Suc 0)) = ''2''"
  by (simp_all add: str_of_nat.simps digit_char_def)

text \<open>The loop of \<open>cypher_path\<close> appends one step text per metarel, in order.\<close>

lemma cypher_path_loop_eq:
  "cypher_path_loop n i ms q = q @ concat (map (\<lambda>j. cypher_step n (i + j) (ms ! j)) [0..<length ms])"
proof (induction ms arbitrary: i q)
  case Nil
  then show ?case by simp
next
  case (Cons m ms)
  have "map (\<lambda>j. cypher_step n (i + j) ((m # ms) ! j)) [0..<length (m # ms)]
      = cypher_step n i m # map (\<lambda>j. cypher_step n (i + 1 + j) (ms ! j)) [0..<length ms]"
    by (simp add: upt_conv_Cons map_Suc_upt[symmetric] del: upt_Suc)
  then show ?case
    using Cons.IH[of "i + 1" "q @ cypher_step n i m"] by simp
qed

lemma cypher_path_nonempty: "metarels \<noteq> [] \<Longrightarrow> \<exists>q. cypher_path metarels = Inr q"
  by (cases metarels) (auto simp: cypher_path_def)

text \<open>Counting the pairs of \<open>itertools.combinations\<close>.\<close>

lemma length_combinations2: "length (combinations2 xs) = length xs choose 2"
  by (induction xs) (simp_all add: numeral_2_eq_2)

lemma length_combinations2_snoc:
  "length (combinations2 (xs @ [x])) = length (combinations2 xs) + length xs"
  by (induction xs) simp_all

lemma set_combinations2_upt:
  "set (combinations2 [m..<n]) = {(i, j). m \<le> i \<and> i < j \<and> j < n}"
proof (induction "n - m" arbitrary: m)
  case 0
  then show ?case by auto
next
  case (Suc k)
  then have lt: "m < n" and k: "k = n - Suc m" by auto
  have "set (combinations2 [m..<n]) = Pair m ` {Suc m..<n} \<union> set (combinations2 [Suc m..<n])"
    using lt by (simp add: upt_conv_Cons)
  also have "\<dots> = Pair m ` {Suc m..<n} \<union> {(i, j). Suc m \<le> i \<and> i < j \<and> j < n}"
    using Suc.hyps(1)[OF k] by simp
  also have "\<dots> = {(i, j). m \<le> i \<and> i < j \<and> j < n}"
    by (force simp: le_eq_less_or_eq image_iff)
  finally show ?case .
qed

lemma choose_2_Suc: "(Suc n) choose 2 = (n choose 2) + n"
  by (simp add: numeral_2_eq_2)

text \<open>
  The grouping of positions by label: processing one more label appends its position
  to the group of that label, and the number of pairs grows by the number of earlier
  positions that carry the same label.
\<close>

lemma map_of_setdefault_append:
  "map_of (setdefault_append k v d) =
     (map_of d)(k \<mapsto> (case map_of d k of None \<Rightarrow> [v] | Some vs \<Rightarrow> vs @ [v]))"
  by (induction d) (auto simp: fun_eq_iff)

lemma length_pairs_setdefault_append:
  "length (concat (map (\<lambda>(label, nodes). combinations2 nodes) (setdefault_append k v d)))
     = length (concat (map (\<lambda>(label, nodes). combinations2 nodes) d))
       + (case map_of d k of None \<Rightarrow> 0 | Some vs \<Rightarrow> length vs)"
  by (induction d) (auto simp: length_combinations2_snoc)

lemma label_to_nodes_Nil [simp]: "label_to_nodes [] = []"
  by (simp add: label_to_nodes_def)

lemma label_to_nodes_snoc:
  "label_to_nodes (labels @ [l]) = setdefault_append l (length labels) (label_to_nodes labels)"
  by (simp add: label_to_nodes_def enumerate_append_eq)

lemma map_of_label_to_nodes:
  "map_of (label_to_nodes labels) l =
     (if l \<in> set labels then Some (filter (\<lambda>i. labels ! i = l) [0..<length labels]) else None)"
proof (induction labels rule: rev_induct)
  case Nil
  then show ?case by simp
next
  case (snoc x xs)
  have f: "filter (\<lambda>i. (xs @ [x]) ! i = l) [0..<length xs] = filter (\<lambda>i. xs ! i = l) [0..<length xs]"
    by (rule filter_cong) (auto simp: nth_append)
  have g: "filter (\<lambda>i. (xs @ [x]) ! i = l) [0..<length (xs @ [x])]
      = filter (\<lambda>i. xs ! i = l) [0..<length xs] @ (if x = l then [length xs] else [])"
    using f by simp
  have e: "filter (\<lambda>i. xs ! i = l) [0..<length xs] = []" if "l \<notin> set xs"
    using that by (auto simp: filter_empty_conv)
  show ?case
    unfolding g label_to_nodes_snoc map_of_setdefault_append
    using snoc.IH e by auto
qed

lemma length_positions: "length (filter (\<lambda>i. xs ! i = l) [0..<length xs]) = count_list xs l"
proof (induction xs rule: rev_induct)
  case Nil
  then show ?case by simp
next
  case (snoc x xs)
  have f: "filter (\<lambda>i. (xs @ [x]) ! i = l) [0..<length xs] = filter (\<lambda>i. xs ! i = l) [0..<length xs]"
    by (rule filter_cong) (auto simp: nth_append)
  show ?case using snoc by (simp add: f)
qed

lemma length_labeled_pairs_snoc:
  "length (labeled_pairs (labels @ [l])) = length (labeled_pairs labels) + count_list labels l"
  by (simp add: labeled_pairs_def label_to_nodes_snoc length_pairs_setdefault_append
      map_of_label_to_nodes length_positions count_list_0_iff)

lemma length_labeled_pairs_le: "length (labeled_pairs labels) \<le> length labels choose 2"
proof (induction labels rule: rev_induct)
  case Nil
  then show ?case by (simp add: labeled_pairs_def)
next
  case (snoc x xs)
  have "count_list xs x \<le> length xs" by (rule count_le_length)
  with snoc show ?case
    by (simp add: length_labeled_pairs_snoc choose_2_Suc)
qed

lemma length_labeled_pairs_less:
  "\<exists>a \<in> set labels. \<exists>b \<in> set labels. a \<noteq> b \<Longrightarrow> length (labeled_pairs labels) < length labels choose 2"
proof (induction labels rule: rev_induct)
  case Nil
  then show ?case by simp
next
  case (snoc x xs)
  show ?case
  proof (cases "\<exists>a \<in> set xs. \<exists>b \<in> set xs. a \<noteq> b")
    case True
    from snoc.IH[OF this] count_le_length[of xs x] show ?thesis
      by (simp add: length_labeled_pairs_snoc choose_2_Suc)
  next
    case False
    with snoc.prems obtain y where y: "y \<in> set xs" "y \<noteq> x"
      by auto
    from False y have "x \<notin> set xs" by auto
    then have "length (labeled_pairs (xs @ [x])) = length (labeled_pairs xs)"
      by (simp add: length_labeled_pairs_snoc count_list_0_iff)
    moreover from y have "0 < length xs" by (cases xs) auto
    moreover have "length (xs @ [x]) choose 2 = (length xs choose 2) + length xs"
      by (simp add: choose_2_Suc)
    ultimately show ?thesis
      using length_labeled_pairs_le[of xs] by linarith
  qed
qed

lemma labeled_pairs_distinct_labels: "distinct labels \<Longrightarrow> labeled_pairs labels = []"
proof -
  assume "distinct labels"
  then have "length (labeled_pairs labels) = 0"
  proof (induction labels rule: rev_induct)
    case Nil
    then show ?case by (simp add: labeled_pairs_def)
  next
    case (snoc x xs)
    then show ?case
      by (simp add: length_labeled_pairs_snoc count_list_0_iff)
  qed
  then show ?thesis by simp
qed

subsection \<open>The pattern of cypher_path\<close>

text \<open>
  C6 (as the code behaves). For every non-empty sequence of metarels, \<open>cypher_path\<close>
  returns the pattern that starts with the variable n0 labelled with the first source
  label, followed for each step i by its connector and the variable n(i+1). The
  connector is \<open>-[:T]->\<close> for direction forward, \<open><-[:T]-\<close> for backward and \<open>-[:T]-\<close> for
  any other direction. Only the last variable carries a label (the last target label);
  the variables in between carry none. The variables are named n0 .. nL.
\<close>

theorem cypher_path_pattern:
  assumes "metarels \<noteq> []"
  shows "cypher_path metarels =
    Inr (''(n0:'' @ fst (hd metarels) @ '')'' @
         concat (map (\<lambda>i. case metarels ! i of (source_label, target_label, rel_type, direction) \<Rightarrow>
                   (if direction = ''forward'' then ''-[:'' @ rel_type @ '']->''
                    else if direction = ''backward'' then ''<-[:'' @ rel_type @ '']-''
                    else ''-[:'' @ rel_type @ '']-'')
                   @ ''(n'' @ str_of_nat (i + 1)
                   @ (if i + 1 = length metarels then '':'' @ target_label else []) @ '')'')
                 [0..<length metarels]))"
proof -
  obtain m ms where ms: "metarels = m # ms"
    using assms by (cases metarels) auto
  obtain s t r d where m: "m = (s, t, r, d)"
    by (cases m) auto
  have step: "cypher_step n i x = (case x of (source_label, target_label, rel_type, direction) \<Rightarrow>
                   (if direction = ''forward'' then ''-[:'' @ rel_type @ '']->''
                    else if direction = ''backward'' then ''<-[:'' @ rel_type @ '']-''
                    else ''-[:'' @ rel_type @ '']-'')
                   @ ''(n'' @ str_of_nat (i + 1)
                   @ (if i + 1 = n then '':'' @ target_label else []) @ '')'')" for n i x
    by (cases x) (simp add: cypher_step_def dir0_def dir1_def)
  have "cypher_path metarels =
      Inr (cypher_path_loop (length metarels) 0 metarels (''(n0:'' @ fst (hd metarels) @ '')''))"
    by (simp add: cypher_path_def ms m)
  then show ?thesis
    by (simp add: cypher_path_loop_eq step)
qed

text \<open>
  Witness of C6: the two forward steps Gene - interacts - Gene - associates - Disease
  give the pattern below, by the theorem.
\<close>

theorem cypher_path_pattern_witness:
  "cypher_path [(''Gene'', ''Gene'', ''INTERACTS_i'', ''forward''), (''Gene'', ''Disease'', ''ASSOCIATES_a'', ''forward'')]
     = Inr ''(n0:Gene)-[:INTERACTS_i]->(n1)-[:ASSOCIATES_a]->(n2:Disease)''"
  using cypher_path_pattern[of "[(''Gene'', ''Gene'', ''INTERACTS_i'', ''forward''), (''Gene'', ''Disease'', ''ASSOCIATES_a'', ''forward'')]"]
  by (simp add: upt_conv_Cons del: upt_Suc)

text \<open>
  C6 (as stated) fails: the empty step sequence raises \<open>IndexError\<close> instead of giving a
  pattern, and the pattern of the example names its variables n0, n1, n2, so it is not
  the text with v0, v1, v2.
\<close>

theorem cypher_path_counterexample:
  "cypher_path [] = Inl IndexError
   \<and> cypher_path [(''Gene'', ''Gene'', ''INTERACTS_i'', ''forward''), (''Gene'', ''Disease'', ''ASSOCIATES_a'', ''forward'')]
     \<noteq> Inr ''(v0:Gene)-[:INTERACTS_i]->(v1)-[:ASSOCIATES_a]->(v2:Disease)''"
  by (simp add: cypher_path_def cypher_step_def)

subsection \<open>metapath_to_metarels\<close>

text \<open>
  C8 (as the code behaves). For every metapath, chained or not and of any length,
  \<open>metapath_to_metarels\<close> returns exactly one metarel per metaedge, in order: the labels
  of the edge's source and target, its relationship type and its direction. It checks
  no chaining and raises nothing.
\<close>

theorem metapath_to_metarels_steps:
  "length (metapath_to_metarels arrange_metaege metapath) = length metapath
   \<and> (\<forall>i < length metapath.
        metapath_to_metarels arrange_metaege metapath ! i =
          (case metaedge_get_id (metapath ! i) of (source, target, kind, direction) \<Rightarrow>
             (as_label source, as_label target, as_type arrange_metaege (metapath ! i), direction)))"
  by (simp add: metapath_to_metarels_def metaedge_to_metarel_def)

text \<open>
  Witness of C8: a chained metapath of two metaedges gives two metarels; the second is
  the one of the second metaedge.
\<close>

theorem metapath_to_metarels_steps_witness:
  "length (metapath_to_metarels id
       [\<lparr>metaedge_get_id = (''gene'', ''disease'', ''associates'', ''both''),
          metaedge_kind = ''associates'', metaedge_kind_abbrev = ''a'', metaedge_get_abbrev = ''GaD''\<rparr>,
        \<lparr>metaedge_get_id = (''disease'', ''gene'', ''associates'', ''both''),
          metaedge_kind = ''associates'', metaedge_kind_abbrev = ''a'', metaedge_get_abbrev = ''DaG''\<rparr>]) = 2
   \<and> metapath_to_metarels id
       [\<lparr>metaedge_get_id = (''gene'', ''disease'', ''associates'', ''both''),
          metaedge_kind = ''associates'', metaedge_kind_abbrev = ''a'', metaedge_get_abbrev = ''GaD''\<rparr>,
        \<lparr>metaedge_get_id = (''disease'', ''gene'', ''associates'', ''both''),
          metaedge_kind = ''associates'', metaedge_kind_abbrev = ''a'', metaedge_get_abbrev = ''DaG''\<rparr>] ! 1
     = (''Disease'', ''Gene'', ''ASSOCIATES_DaG'', ''both'')"
  using metapath_to_metarels_steps[of id
       "[\<lparr>metaedge_get_id = (''gene'', ''disease'', ''associates'', ''both''),
          metaedge_kind = ''associates'', metaedge_kind_abbrev = ''a'', metaedge_get_abbrev = ''GaD''\<rparr>,
        \<lparr>metaedge_get_id = (''disease'', ''gene'', ''associates'', ''both''),
          metaedge_kind = ''associates'', metaedge_kind_abbrev = ''a'', metaedge_get_abbrev = ''DaG''\<rparr>]"]
  by (simp add: as_label_def as_type_def title_def upper_simps char_eval)

text \<open>
  C8 (as stated) fails: on the metapath gene - associates - disease followed by
  compound - binds - gene, whose first target is not the second source, the function
  returns its two metarels; no error is raised.
\<close>

theorem metapath_to_metarels_no_chaining_check:
  "\<not> chains
       [\<lparr>metaedge_get_id = (''gene'', ''disease'', ''associates'', ''both''),
          metaedge_kind = ''associates'', metaedge_kind_abbrev = ''a'', metaedge_get_abbrev = ''GaD''\<rparr>,
        \<lparr>metaedge_get_id = (''compound'', ''gene'', ''binds'', ''both''),
          metaedge_kind = ''binds'', metaedge_kind_abbrev = ''b'', metaedge_get_abbrev = ''CbG''\<rparr>]
   \<and> metapath_to_metarels id
       [\<lparr>metaedge_get_id = (''gene'', ''disease'', ''associates'', ''both''),
          metaedge_kind = ''associates'', metaedge_kind_abbrev = ''a'', metaedge_get_abbrev = ''GaD''\<rparr>,
        \<lparr>metaedge_get_id = (''compound'', ''gene'', ''binds'', ''both''),
          metaedge_kind = ''binds'', metaedge_kind_abbrev = ''b'', metaedge_get_abbrev = ''CbG''\<rparr>]
     = [(''Gene'', ''Disease'', ''ASSOCIATES_GaD'', ''both''),
        (''Compound'', ''Gene'', ''BINDS_CbG'', ''both'')]"
  by (simp add: metapath_to_metarels_def metaedge_to_metarel_def as_label_def as_type_def
      title_def upper_simps char_eval)

text \<open>The pairs of mode labeled are the pairs of positions that carry the same label.\<close>

lemma set_combinations2_snoc:
  "set (combinations2 (xs @ [x])) = set (combinations2 xs) \<union> (\<lambda>i. (i, x)) ` set xs"
  by (induction xs) auto

lemma set_pairs_setdefault_append:
  "set (concat (map (\<lambda>p. combinations2 (snd p)) (setdefault_append k v d)))
     = set (concat (map (\<lambda>p. combinations2 (snd p)) d))
       \<union> (case map_of d k of None \<Rightarrow> {} | Some vs \<Rightarrow> (\<lambda>i. (i, v)) ` set vs)"
proof (induction d)
  case Nil
  then show ?case by simp
next
  case (Cons x d)
  obtain k' vs where x: "x = (k', vs)" by (cases x)
  show ?case
  proof (cases "k' = k")
    case True
    then show ?thesis
      by (simp add: x set_combinations2_snoc Un_assoc Un_left_commute Un_commute)
  next
    case False
    then show ?thesis
      using Cons.IH by (simp add: x Un_assoc)
  qed
qed

lemma set_labeled_pairs:
  "set (labeled_pairs labels) = {(i, j). i < j \<and> j < length labels \<and> labels ! i = labels ! j}"
proof (induction labels rule: rev_induct)
  case Nil
  then show ?case by (simp add: labeled_pairs_def)
next
  case (snoc l ls)
  have new: "(case map_of (label_to_nodes ls) l of None \<Rightarrow> {}
               | Some vs \<Rightarrow> (\<lambda>i. (i, length ls)) ` set vs)
      = {(i, length ls) | i. i < length ls \<and> ls ! i = l}"
  proof (cases "l \<in> set ls")
    case True
    then show ?thesis
      by (auto simp: map_of_label_to_nodes)
  next
    case False
    then have "\<forall>i < length ls. ls ! i \<noteq> l"
      by (metis nth_mem)
    with False show ?thesis
      by (auto simp: map_of_label_to_nodes)
  qed
  have "set (labeled_pairs (ls @ [l]))
      = set (labeled_pairs ls) \<union> {(i, length ls) | i. i < length ls \<and> ls ! i = l}"
    unfolding labeled_pairs_def case_prod_beta label_to_nodes_snoc set_pairs_setdefault_append new
    by (rule refl)
  also have "\<dots> = {(i, j). i < j \<and> j < length ls \<and> ls ! i = ls ! j}
                \<union> {(i, length ls) | i. i < length ls \<and> ls ! i = l}"
    by (simp only: snoc.IH)
  also have "\<dots> = {(i, j). i < j \<and> j < length (ls @ [l]) \<and> (ls @ [l]) ! i = (ls @ [l]) ! j}"
    by (auto simp: nth_append less_Suc_eq)
  finally show ?case .
qed

subsection \<open>The unique node constraint\<close>

text \<open>
  C3. For metarels of length L: mode expanded joins exactly C(L+1, 2) inequality
  clauses \<open>na = nb\<close>, one for every pair of positions a < b \<le> L; mode labeled joins the
  clauses of the pairs of positions with equal labels, hence at most C(L+1, 2) of them
  and strictly fewer as soon as two positions carry different labels (on the empty
  sequence it raises \<open>IndexError\<close> and emits nothing); mode nested (or \<open>True\<close>) emits the
  single conjunct \<open>AND ALL (...)\<close> written out below, 82 characters whatever L is, the
  same text for any two sequences of metarels, and different from the empty clause of
  \<open>unique_nodes = False\<close>.
\<close>

theorem uniqueness_clause_counts:
  "unique_nodes_query (Str ''expanded'') metarels
     = Inr (newline @ ''AND NOT ('' @ join '' OR '' (map pair_str (expanded_pairs metarels)) @ '')'')
   \<and> length (expanded_pairs metarels) = (length metarels + 1) choose 2
   \<and> set (expanded_pairs metarels) = {(i, j). i < j \<and> j \<le> length metarels}
   \<and> (node_labels metarels = Inr labels \<longrightarrow>
        unique_nodes_query (Str ''labeled'') metarels
          = Inr (format_expanded_clause (PyList (labeled_pairs labels)))
        \<and> unique_nodes_query (Str ''labeled'') metarels
          = Inr (if labeled_pairs labels = [] then []
                 else newline @ ''AND NOT ('' @ join '' OR '' (map pair_str (labeled_pairs labels)) @ '')'')
        \<and> set (labeled_pairs labels)
          = {(i, j). i < j \<and> j \<le> length metarels \<and> labels ! i = labels ! j}
        \<and> length (labeled_pairs labels) \<le> (length metarels + 1) choose 2
        \<and> ((\<exists>i < length labels. \<exists>j < length labels. labels ! i \<noteq> labels ! j) \<longrightarrow>
              length (labeled_pairs labels) < (length metarels + 1) choose 2))
   \<and> (metarels = [] \<longrightarrow> unique_nodes_query (Str ''labeled'') metarels = Inl IndexError)
   \<and> pair_str (a, b) = ''n'' @ str_of_nat a @ '' = n'' @ str_of_nat b
   \<and> unique_nodes_query (Str ''nested'') metarels = Inr nested_clause
   \<and> unique_nodes_query (Bool True) metarels = Inr nested_clause
   \<and> nested_clause
       = newline @ ''AND ALL (x IN nodes(paths) WHERE size(filter(z IN nodes(paths) WHERE z = x)) = 1)''
   \<and> unique_nodes_query (Str ''nested'') metarels \<noteq> unique_nodes_query (Bool False) metarels
   \<and> length nested_clause = 82
   \<and> unique_nodes_query (Str ''nested'') metarels
       = Inr (newline @ ''AND ALL (x IN nodes(paths) WHERE size(filter(z IN nodes(paths) WHERE z = x)) = 1)'')
   \<and> unique_nodes_query (Str ''nested'') metarels = unique_nodes_query (Str ''nested'') other_metarels"
proof -
  have e1: "unique_nodes_query (Str ''expanded'') metarels
     = Inr (newline @ ''AND NOT ('' @ join '' OR '' (map pair_str (expanded_pairs metarels)) @ '')'')"
    by (simp add: unique_nodes_query_def format_expanded_clause_def)
  have e2: "length (expanded_pairs metarels) = (length metarels + 1) choose 2"
    by (simp add: expanded_pairs_def length_combinations2 del: upt_Suc)
  have e3: "set (expanded_pairs metarels) = {(i, j). i < j \<and> j \<le> length metarels}"
    unfolding expanded_pairs_def set_combinations2_upt by auto
  have l: "unique_nodes_query (Str ''labeled'') metarels
          = Inr (format_expanded_clause (PyList (labeled_pairs labels)))
        \<and> unique_nodes_query (Str ''labeled'') metarels
          = Inr (if labeled_pairs labels = [] then []
                 else newline @ ''AND NOT ('' @ join '' OR '' (map pair_str (labeled_pairs labels)) @ '')'')
        \<and> set (labeled_pairs labels)
          = {(i, j). i < j \<and> j \<le> length metarels \<and> labels ! i = labels ! j}
        \<and> length (labeled_pairs labels) \<le> (length metarels + 1) choose 2
        \<and> ((\<exists>i < length labels. \<exists>j < length labels. labels ! i \<noteq> labels ! j) \<longrightarrow>
              length (labeled_pairs labels) < (length metarels + 1) choose 2)"
    if nl: "node_labels metarels = Inr labels"
  proof -
    from nl have len: "length labels = length metarels + 1"
      by (auto simp: node_labels_def split: if_splits)
    have l1: "unique_nodes_query (Str ''labeled'') metarels
          = Inr (format_expanded_clause (PyList (labeled_pairs labels)))"
      using nl by (simp add: unique_nodes_query_def)
    have l1': "unique_nodes_query (Str ''labeled'') metarels
          = Inr (if labeled_pairs labels = [] then []
                 else newline @ ''AND NOT ('' @ join '' OR '' (map pair_str (labeled_pairs labels)) @ '')'')"
      unfolding l1 by (simp add: format_expanded_clause_def)
    have l0: "set (labeled_pairs labels)
          = {(i, j). i < j \<and> j \<le> length metarels \<and> labels ! i = labels ! j}"
      unfolding set_labeled_pairs len by auto
    have l2: "length (labeled_pairs labels) \<le> (length metarels + 1) choose 2"
      using length_labeled_pairs_le[of labels] len by simp
    have l3: "length (labeled_pairs labels) < (length metarels + 1) choose 2"
      if "\<exists>i < length labels. \<exists>j < length labels. labels ! i \<noteq> labels ! j"
    proof -
      from that have "\<exists>a \<in> set labels. \<exists>b \<in> set labels. a \<noteq> b"
        by (metis nth_mem)
      from length_labeled_pairs_less[OF this] len show ?thesis by simp
    qed
    from l1 l1' l0 l2 l3 show ?thesis by blast
  qed
  have l_empty: "unique_nodes_query (Str ''labeled'') metarels = Inl IndexError" if "metarels = []"
    using that by (simp add: unique_nodes_query_def node_labels_def)
  have p: "pair_str (a, b) = ''n'' @ str_of_nat a @ '' = n'' @ str_of_nat b"
    by (simp add: pair_str_def)
  have n: "unique_nodes_query (Str ''nested'') metarels = Inr nested_clause"
    "unique_nodes_query (Bool True) metarels = Inr nested_clause"
    by (simp_all add: unique_nodes_query_def)
  have nc: "nested_clause
       = newline @ ''AND ALL (x IN nodes(paths) WHERE size(filter(z IN nodes(paths) WHERE z = x)) = 1)''"
    by (rule nested_clause_def)
  have nn: "unique_nodes_query (Str ''nested'') metarels \<noteq> unique_nodes_query (Bool False) metarels"
    by (simp add: unique_nodes_query_def nested_clause_def newline_def)
  have nl: "length nested_clause = 82"
    by (simp add: nested_clause_def newline_def)
  have nd: "unique_nodes_query (Str ''nested'') metarels
       = Inr (newline @ ''AND ALL (x IN nodes(paths) WHERE size(filter(z IN nodes(paths) WHERE z = x)) = 1)'')"
    by (simp add: unique_nodes_query_def nested_clause_def)
  have ni: "unique_nodes_query (Str ''nested'') metarels = unique_nodes_query (Str ''nested'') other_metarels"
    by (simp add: unique_nodes_query_def)
  from e1 e2 e3 l l_empty p n nc nn nl nd ni show ?thesis by blast
qed

text \<open>
  Witness of C3: on Gene - Gene - Disease (L = 2) mode expanded gives the three clauses
  of C(3, 2) and mode labeled the single clause of the two Gene positions; mode nested
  gives the same one conjunct on this path and on a path of one step, and it is not the
  empty clause.
\<close>

theorem uniqueness_clause_counts_witness:
  "unique_nodes_query (Str ''expanded'')
       [(''Gene'', ''Gene'', ''INTERACTS_i'', ''forward''), (''Gene'', ''Disease'', ''ASSOCIATES_a'', ''forward'')]
     = Inr (newline @ ''AND NOT (n0 = n1 OR n0 = n2 OR n1 = n2)'')
   \<and> length (expanded_pairs
       [(''Gene'', ''Gene'', ''INTERACTS_i'', ''forward''), (''Gene'', ''Disease'', ''ASSOCIATES_a'', ''forward'')]) = 3
   \<and> unique_nodes_query (Str ''labeled'')
       [(''Gene'', ''Gene'', ''INTERACTS_i'', ''forward''), (''Gene'', ''Disease'', ''ASSOCIATES_a'', ''forward'')]
     = Inr (newline @ ''AND NOT (n0 = n1)'')
   \<and> length (labeled_pairs [''Gene'', ''Gene'', ''Disease'']) < 3
   \<and> unique_nodes_query (Str ''nested'')
       [(''Gene'', ''Gene'', ''INTERACTS_i'', ''forward''), (''Gene'', ''Disease'', ''ASSOCIATES_a'', ''forward'')]
     = Inr (newline @ ''AND ALL (x IN nodes(paths) WHERE size(filter(z IN nodes(paths) WHERE z = x)) = 1)'')
   \<and> unique_nodes_query (Str ''nested'') [(''Gene'', ''Disease'', ''ASSOCIATES_a'', ''forward'')]
     = Inr (newline @ ''AND ALL (x IN nodes(paths) WHERE size(filter(z IN nodes(paths) WHERE z = x)) = 1)'')
   \<and> unique_nodes_query (Str ''nested'') [(''Gene'', ''Disease'', ''ASSOCIATES_a'', ''forward'')]
     \<noteq> unique_nodes_query (Bool False) [(''Gene'', ''Disease'', ''ASSOCIATES_a'', ''forward'')]"
proof -
  let ?two = "[(''Gene'', ''Gene'', ''INTERACTS_i'', ''forward''), (''Gene'', ''Disease'', ''ASSOCIATES_a'', ''forward'')]"
  let ?one = "[(''Gene'', ''Disease'', ''ASSOCIATES_a'', ''forward'')]"
  note two = uniqueness_clause_counts[of ?two "[''Gene'', ''Gene'', ''Disease'']" 0 1]
  note one = uniqueness_clause_counts[of ?one "[''Gene'', ''Disease'']" 0 1]
  have nl: "node_labels ?two = Inr [''Gene'', ''Gene'', ''Disease'']"
    by (simp add: node_labels_def)
  have p: "labeled_pairs [''Gene'', ''Gene'', ''Disease''] = [(0, 1)]"
    by (simp add: labeled_pairs_def label_to_nodes_def enumerate_eq_zip upt_conv_Cons del: upt_Suc)
  have q: "expanded_pairs ?two = [(0, 1), (0, 2), (1, 2)]"
    by (simp add: expanded_pairs_def upt_conv_Cons del: upt_Suc)
  have c: "(length ?two + 1) choose 2 = 3"
    by (simp add: numeral_2_eq_2)
  have w1: "unique_nodes_query (Str ''expanded'') ?two
      = Inr (newline @ ''AND NOT (n0 = n1 OR n0 = n2 OR n1 = n2)'')"
    using two[THEN conjunct1] by (simp add: q pair_str_def)
  have w2: "length (expanded_pairs ?two) = 3"
    using two[THEN conjunct2, THEN conjunct1] unfolding c .
  from two nl have lab: "unique_nodes_query (Str ''labeled'') ?two
          = Inr (format_expanded_clause (PyList (labeled_pairs [''Gene'', ''Gene'', ''Disease''])))"
    and lt: "(\<exists>i < length [''Gene'', ''Gene'', ''Disease'']. \<exists>j < length [''Gene'', ''Gene'', ''Disease''].
                [''Gene'', ''Gene'', ''Disease''] ! i \<noteq> [''Gene'', ''Gene'', ''Disease''] ! j) \<longrightarrow>
              length (labeled_pairs [''Gene'', ''Gene'', ''Disease'']) < (length ?two + 1) choose 2"
    by blast+
  have w3: "unique_nodes_query (Str ''labeled'') ?two = Inr (newline @ ''AND NOT (n0 = n1)'')"
    unfolding lab by (simp add: p pair_str_def format_expanded_clause_def)
  have "\<exists>i < length [''Gene'', ''Gene'', ''Disease'']. \<exists>j < length [''Gene'', ''Gene'', ''Disease''].
                [''Gene'', ''Gene'', ''Disease''] ! i \<noteq> [''Gene'', ''Gene'', ''Disease''] ! j"
    by (rule exI[of _ 0], simp, rule exI[of _ 2], simp)
  with lt have w4: "length (labeled_pairs [''Gene'', ''Gene'', ''Disease'']) < 3"
    unfolding c by blast
  from two have n2: "unique_nodes_query (Str ''nested'') ?two = Inr nested_clause"
    and nc: "nested_clause
       = newline @ ''AND ALL (x IN nodes(paths) WHERE size(filter(z IN nodes(paths) WHERE z = x)) = 1)''"
    by blast+
  from one have n1: "unique_nodes_query (Str ''nested'') ?one = Inr nested_clause"
    and nn: "unique_nodes_query (Str ''nested'') ?one \<noteq> unique_nodes_query (Bool False) ?one"
    by blast+
  from w1 w2 w3 w4 n2 n1 nn show ?thesis
    unfolding nc by blast
qed

text \<open>
  C9 (as the code behaves). The values that the code recognizes are \<open>False\<close> (no
  constraint), \<open>True\<close> or the string nested, and the strings expanded and labeled. Any
  other value, the string none among them, fails \<open>assert unique_nodes is False\<close>: the
  branch raises \<open>AssertionError\<close>, and \<open>construct_dwpc_query\<close> returns that error and no
  query text on every non-empty sequence of metarels. Each recognized value gives a
  clause and a query text on a non-empty sequence. On the empty sequence the function
  raises \<open>IndexError\<close> whatever the value is.
\<close>

theorem unique_nodes_mode_errors:
  "(unique_nodes \<notin> {Bool False, Bool True, Str ''nested'', Str ''expanded'', Str ''labeled''} \<longrightarrow>
      unique_nodes_query unique_nodes metarels = Inl AssertionError
      \<and> (\<exists>e. construct_dwpc_query metarels property use_index unique_nodes = Inl e)
      \<and> (metarels \<noteq> [] \<longrightarrow>
           construct_dwpc_query metarels property use_index unique_nodes = Inl AssertionError))
   \<and> (unique_nodes \<in> {Bool False, Bool True, Str ''nested'', Str ''expanded'', Str ''labeled''}
        \<and> metarels \<noteq> [] \<longrightarrow>
      (\<exists>q. unique_nodes_query unique_nodes metarels = Inr q)
      \<and> (\<exists>q. construct_dwpc_query metarels property use_index unique_nodes = Inr q))
   \<and> construct_dwpc_query [] property use_index unique_nodes = Inl IndexError"
proof -
  have bad: "unique_nodes_query unique_nodes metarels = Inl AssertionError"
    if "unique_nodes \<notin> {Bool False, Bool True, Str ''nested'', Str ''expanded'', Str ''labeled''}"
    using that by (simp add: unique_nodes_query_def)
  have bad_any: "\<exists>e. construct_dwpc_query metarels property use_index unique_nodes = Inl e"
    if "unique_nodes \<notin> {Bool False, Bool True, Str ''nested'', Str ''expanded'', Str ''labeled''}"
    using bad[OF that] by (simp add: construct_dwpc_query_def Let_def split: sum.splits)
  have bad_ne: "construct_dwpc_query metarels property use_index unique_nodes = Inl AssertionError"
    if "unique_nodes \<notin> {Bool False, Bool True, Str ''nested'', Str ''expanded'', Str ''labeled''}"
      and "metarels \<noteq> []"
    using bad[OF that(1)] cypher_path_nonempty[OF that(2)]
    by (auto simp: construct_dwpc_query_def Let_def)
  have good: "\<exists>q. unique_nodes_query unique_nodes metarels = Inr q"
    if "unique_nodes \<in> {Bool False, Bool True, Str ''nested'', Str ''expanded'', Str ''labeled''}"
      and "metarels \<noteq> []"
    using that by (auto simp: unique_nodes_query_def node_labels_def)
  have good_q: "\<exists>q. construct_dwpc_query metarels property use_index unique_nodes = Inr q"
    if "unique_nodes \<in> {Bool False, Bool True, Str ''nested'', Str ''expanded'', Str ''labeled''}"
      and "metarels \<noteq> []"
    using good[OF that] cypher_path_nonempty[OF that(2)]
    by (auto simp: construct_dwpc_query_def Let_def)
  have empty: "construct_dwpc_query [] property use_index unique_nodes = Inl IndexError"
    by (simp add: construct_dwpc_query_def cypher_path_def)
  from bad bad_any bad_ne good good_q empty show ?thesis by blast
qed

text \<open>
  Witness of C9: on a one-step path the string exhaustive and a value that is neither
  a string nor a boolean raise the assertion error; labeled and \<open>False\<close> give a query.
\<close>

theorem unique_nodes_mode_errors_witness:
  "construct_dwpc_query [(''Gene'', ''Disease'', ''ASSOCIATES_a'', ''both'')] ''name'' True (Str ''exhaustive'')
     = Inl AssertionError
   \<and> construct_dwpc_query [(''Gene'', ''Disease'', ''ASSOCIATES_a'', ''both'')] ''name'' True Other
     = Inl AssertionError
   \<and> (\<exists>q. construct_dwpc_query [(''Gene'', ''Disease'', ''ASSOCIATES_a'', ''both'')] ''name'' True
             (Str ''labeled'') = Inr q)
   \<and> (\<exists>q. construct_dwpc_query [(''Gene'', ''Disease'', ''ASSOCIATES_a'', ''both'')] ''name'' True
             (Bool False) = Inr q)"
  using unique_nodes_mode_errors[of "Str ''exhaustive''" "[(''Gene'', ''Disease'', ''ASSOCIATES_a'', ''both'')]" "''name''" True]
    unique_nodes_mode_errors[of Other "[(''Gene'', ''Disease'', ''ASSOCIATES_a'', ''both'')]" "''name''" True]
    unique_nodes_mode_errors[of "Str ''labeled''" "[(''Gene'', ''Disease'', ''ASSOCIATES_a'', ''both'')]" "''name''" True]
    unique_nodes_mode_errors[of "Bool False" "[(''Gene'', ''Disease'', ''ASSOCIATES_a'', ''both'')]" "''name''" True]
  by simp

text \<open>
  C9 (as stated) fails: the mode name none, passed as the string, raises the assertion
  error; \<open>True\<close>, which is not one of the four mode names, is accepted and gives the query
  of nested; and on the empty path the recognized mode expanded raises an error, which
  is \<open>IndexError\<close>, as it is for an unrecognized value there.
\<close>

theorem unique_nodes_mode_errors_counterexample:
  "construct_dwpc_query [(''Gene'', ''Disease'', ''ASSOCIATES_a'', ''both'')] ''name'' True (Str ''none'')
     = Inl AssertionError
   \<and> construct_dwpc_query [(''Gene'', ''Disease'', ''ASSOCIATES_a'', ''both'')] ''name'' True (Bool True)
     = construct_dwpc_query [(''Gene'', ''Disease'', ''ASSOCIATES_a'', ''both'')] ''name'' True (Str ''nested'')
   \<and> (\<exists>q. construct_dwpc_query [(''Gene'', ''Disease'', ''ASSOCIATES_a'', ''both'')] ''name'' True (Bool True)
            = Inr q)
   \<and> construct_dwpc_query [] ''name'' True (Str ''expanded'') = Inl IndexError
   \<and> construct_dwpc_query [] ''name'' True (Str ''exhaustive'') = Inl IndexError"
  by (simp add: construct_dwpc_query_def unique_nodes_query_def cypher_path_def Let_def)

text \<open>
  C10. When the labels of the L+1 node positions are pairwise distinct, mode labeled
  emits the empty clause, and the query text is the same as with \<open>unique_nodes = False\<close>
  for the same metarels, property and index-hint setting.
\<close>

theorem labeled_distinct_labels_same_as_none:
  assumes "node_labels metarels = Inr labels" and "distinct labels"
  shows "unique_nodes_query (Str ''labeled'') metarels = Inr []
    \<and> construct_dwpc_query metarels property use_index (Str ''labeled'')
        = construct_dwpc_query metarels property use_index (Bool False)
    \<and> (\<exists>q. construct_dwpc_query metarels property use_index (Str ''labeled'') = Inr q)"
proof -
  have u: "unique_nodes_query (Str ''labeled'') metarels = Inr []"
    using assms by (simp add: unique_nodes_query_def labeled_pairs_distinct_labels format_expanded_clause_def)
  have v: "unique_nodes_query (Bool False) metarels = Inr []"
    by (simp add: unique_nodes_query_def)
  from assms(1) have ne: "metarels \<noteq> []"
    by (auto simp: node_labels_def split: if_splits)
  from u v cypher_path_nonempty[OF ne] show ?thesis
    by (auto simp: construct_dwpc_query_def Let_def)
qed

text \<open>
  Witness of C10: the path Compound - Gene - Disease has three distinct labels, and its
  labeled query equals its unconstrained query.
\<close>

theorem labeled_distinct_labels_same_as_none_witness:
  "distinct [''Compound'', ''Gene'', ''Disease'']
   \<and> construct_dwpc_query [(''Compound'', ''Gene'', ''BINDS_b'', ''both''), (''Gene'', ''Disease'', ''ASSOCIATES_a'', ''both'')] ''name'' True (Str ''labeled'')
     = construct_dwpc_query [(''Compound'', ''Gene'', ''BINDS_b'', ''both''), (''Gene'', ''Disease'', ''ASSOCIATES_a'', ''both'')] ''name'' True (Bool False)"
proof -
  have n: "node_labels [(''Compound'', ''Gene'', ''BINDS_b'', ''both''), (''Gene'', ''Disease'', ''ASSOCIATES_a'', ''both'')]
      = Inr [''Compound'', ''Gene'', ''Disease'']"
    by (simp add: node_labels_def)
  have d: "distinct [''Compound'', ''Gene'', ''Disease'']"
    by simp
  from labeled_distinct_labels_same_as_none[OF n d, of "''name''" True] d show ?thesis
    by blast
qed

section \<open>Termination and correctness of find_abbrevs\<close>

text \<open>An iterable has duplicates exactly when it is not distinct.\<close>

lemma count_list_le_1_iff_distinct: "(\<forall>k \<in> set xs. count_list xs k \<le> 1) \<longleftrightarrow> distinct xs"
proof (induction xs)
  case Nil
  then show ?case by simp
next
  case (Cons x xs)
  show ?case
  proof
    assume a: "\<forall>k \<in> set (x # xs). count_list (x # xs) k \<le> 1"
    then have "count_list xs x = 0" by simp
    then have nx: "x \<notin> set xs" by (simp add: count_list_0_iff)
    have "\<forall>k \<in> set xs. count_list xs k \<le> 1"
    proof
      fix k assume k: "k \<in> set xs"
      with a have "count_list (x # xs) k \<le> 1" by simp
      then show "count_list xs k \<le> 1" by (simp split: if_splits)
    qed
    with Cons.IH nx show "distinct (x # xs)" by simp
  next
    assume d: "distinct (x # xs)"
    then have "\<forall>k \<in> set xs. count_list xs k \<le> 1" using Cons.IH by simp
    moreover from d have "count_list xs x = 0" by (simp add: count_list_0_iff)
    ultimately show "\<forall>k \<in> set (x # xs). count_list (x # xs) k \<le> 1"
      using d by auto
  qed
qed

lemma get_duplicates_empty_iff: "get_duplicates xs = [] \<longleftrightarrow> distinct xs"
  unfolding get_duplicates_def filter_empty_conv
  using count_list_le_1_iff_distinct[of xs] by (auto simp: not_less)


lemma fst_extended [simp]: "fst (extended dups item) = fst item"
  by (cases item) (simp add: extended_def)


lemma dict_set_at:
  "k \<notin> fst ` set ys \<Longrightarrow> dict_set k v (ys @ (k, a) # xs) = ys @ (k, v) # xs"
  by (induction ys) auto

lemma extend_abbrev_at:
  "k \<notin> fst ` set ys \<Longrightarrow>
     extend_abbrev dups (k, a) (ys @ (k, a) # xs) = ys @ extended dups (k, a) # xs"
  by (simp add: extend_abbrev_def extended_def dict_set_at)

lemma fold_extend_abbrev_gen:
  "distinct (map fst xs) \<Longrightarrow> fst ` set ys \<inter> fst ` set xs = {} \<Longrightarrow>
     fold (extend_abbrev dups) xs (ys @ xs) = ys @ map (extended dups) xs"
proof (induction xs arbitrary: ys)
  case Nil
  then show ?case by simp
next
  case (Cons x xs)
  obtain k a where x: "x = (k, a)" by (cases x)
  from Cons.prems have k: "k \<notin> fst ` set ys" by (auto simp: x)
  have "fold (extend_abbrev dups) (x # xs) (ys @ x # xs)
      = fold (extend_abbrev dups) xs ((ys @ [extended dups x]) @ xs)"
    using extend_abbrev_at[OF k, of dups a xs] by (simp add: x)
  also have "\<dots> = (ys @ [extended dups x]) @ map (extended dups) xs"
  proof (rule Cons.IH)
    show "distinct (map fst xs)" using Cons.prems by simp
    show "fst ` set (ys @ [extended dups x]) \<inter> fst ` set xs = {}"
      using Cons.prems by (auto simp: x)
  qed
  finally show ?case by simp
qed

lemma fold_extend_abbrev:
  "distinct (map fst d) \<Longrightarrow> fold (extend_abbrev dups) d d = map (extended dups) d"
  using fold_extend_abbrev_gen[of d "[]" dups] by simp









lemma map_fst_dict_set:
  "map fst (dict_set k v d) = (if k \<in> fst ` set d then map fst d else map fst d @ [k])"
  by (induction d) (force simp: image_iff)+

lemma set_dict_set_cases: "x \<in> set (dict_set k v d) \<Longrightarrow> x = (k, v) \<or> x \<in> set d"
  by (induction d) (auto split: if_splits)


lemma init_abbrevs_error: "[] \<in> set kinds \<Longrightarrow> init_abbrevs kinds d = Inl IndexError"
  by (induction kinds arbitrary: d) (auto split: list.splits)

lemma init_abbrevs_ok:
  assumes "[] \<notin> set kinds" and "distinct (map fst d)" and "\<forall>item \<in> set d. prefix_token item"
  shows "\<exists>d'. init_abbrevs kinds d = Inr d' \<and> distinct (map fst d')
           \<and> set (map fst d') = set (map fst d) \<union> set kinds
           \<and> (\<forall>item \<in> set d'. prefix_token item)"
  using assms
proof (induction kinds arbitrary: d)
  case Nil
  then show ?case by simp
next
  case (Cons kind kinds)
  from Cons.prems(1) obtain c cs where kind: "kind = c # cs"
    by (cases kind) auto
  let ?d = "dict_set kind (lower [c]) d"
  have 1: "[] \<notin> set kinds" using Cons.prems(1) by simp
  have 2: "distinct (map fst ?d)"
    using Cons.prems(2) by (auto simp: map_fst_dict_set)
  have 3: "\<forall>item \<in> set ?d. prefix_token item"
  proof
    fix item assume "item \<in> set ?d"
    then have "item = (kind, lower [c]) \<or> item \<in> set d"
      by (rule set_dict_set_cases)
    then show "prefix_token item"
      using Cons.prems(3) by (auto simp: prefix_token_def kind lower_simps)
  qed
  from Cons.IH[OF 1 2 3] obtain d' where d': "init_abbrevs kinds ?d = Inr d'"
    "distinct (map fst d')" "set (map fst d') = set (map fst ?d) \<union> set kinds"
    "\<forall>item \<in> set d'. prefix_token item"
    by blast
  have "set (map fst ?d) = insert kind (set (map fst d))"
    by (auto simp: map_fst_dict_set)
  with d' show ?case
    by (auto simp: kind)
qed

lemma map_fst_comp_extended [simp]: "map (fst \<circ> extended dups) d = map fst d"
  by (induction d) simp_all

text \<open>If the loop returns, no two abbreviations are equal.\<close>

lemma find_abbrevs_while_returns:
  assumes "find_abbrevs_while d dups = Some d'"
  shows "distinct (map fst d) \<and> dups = get_duplicates (map snd d) \<longrightarrow>
           map fst d' = map fst d \<and> distinct (map snd d')"
proof (rule find_abbrevs_while.raw_induct[where
        P = "\<lambda>d dups d'. distinct (map fst d) \<and> dups = get_duplicates (map snd d) \<longrightarrow>
           map fst d' = map fst d \<and> distinct (map snd d')", OF _ assms])
  fix f d dups d'
  assume IH: "\<And>a b y. f a b = Some y \<Longrightarrow>
          distinct (map fst a) \<and> b = get_duplicates (map snd a) \<longrightarrow>
           map fst y = map fst a \<and> distinct (map snd y)"
    and body: "(if dups \<noteq> [] then
        (let kind_to_abbrev' = fold (extend_abbrev dups) d d
         in f kind_to_abbrev' (get_duplicates (map snd kind_to_abbrev')))
      else Some d) = Some d'"
  show "distinct (map fst d) \<and> dups = get_duplicates (map snd d) \<longrightarrow>
           map fst d' = map fst d \<and> distinct (map snd d')"
  proof
    assume a: "distinct (map fst d) \<and> dups = get_duplicates (map snd d)"
    show "map fst d' = map fst d \<and> distinct (map snd d')"
    proof (cases "dups = []")
      case True
      with body have "d' = d" by simp
      moreover from a True have "get_duplicates (map snd d) = []" by simp
      then have "distinct (map snd d)" by (simp only: get_duplicates_empty_iff)
      ultimately show ?thesis by simp
    next
      case False
      let ?d = "map (extended dups) d"
      from False body a have "f ?d (get_duplicates (map snd ?d)) = Some d'"
        by (simp add: Let_def fold_extend_abbrev)
      from IH[OF this] a show ?thesis by simp
    qed
  qed
qed


lemma dict_set_mem_same: "(k, v) \<in> set (dict_set k v d)"
  by (induction d) auto

lemma dict_set_mem_other: "(k', v') \<in> set d \<Longrightarrow> k' \<noteq> k \<Longrightarrow> (k', v') \<in> set (dict_set k v d)"
  by (induction d) auto

lemma init_abbrevs_mem:
  "init_abbrevs kinds d0 = Inr d \<Longrightarrow> k \<noteq> [] \<Longrightarrow>
     (k, lower [hd k]) \<in> set d0 \<or> k \<in> set kinds \<Longrightarrow> (k, lower [hd k]) \<in> set d"
proof (induction kinds arbitrary: d0)
  case Nil
  then show ?case by simp
next
  case (Cons kind kinds)
  from Cons.prems(1) obtain c cs where kind: "kind = c # cs"
    by (cases kind) auto
  let ?d = "dict_set kind (lower [c]) d0"
  from Cons.prems(1) have i: "init_abbrevs kinds ?d = Inr d"
    by (simp add: kind)
  have "(k, lower [hd k]) \<in> set ?d \<or> k \<in> set kinds"
  proof (cases "k = kind")
    case True
    then show ?thesis using dict_set_mem_same[of kind "lower [c]" d0] by (simp add: kind)
  next
    case False
    with Cons.prems(3) show ?thesis by (auto intro: dict_set_mem_other)
  qed
  from Cons.IH[OF i Cons.prems(2) this] show ?case .
qed

lemma extended_same_token:
  assumes "lower k1 = lower k2"
  shows "snd (extended dups (k1, a)) = snd (extended dups (k2, a))"
proof -
  from assms have len: "length k1 = length k2"
    by (metis length_lower)
  have "lower_char (k1 ! length a) = lower_char (k2 ! length a)" if "length a < length k1"
  proof -
    have "lower k1 ! length a = lower_char (k1 ! length a)"
      using that by (simp add: lower_def)
    moreover have "lower k2 ! length a = lower_char (k2 ! length a)"
      using that len by (simp add: lower_def)
    ultimately show ?thesis using assms by simp
  qed
  then show ?thesis
    using len by (auto simp: extended_def lower_simps)
qed

text \<open>Two names that are equal after lowercasing keep equal abbreviations in every
  pass, so the loop never reaches a state without duplicates.\<close>

lemma find_abbrevs_while_case_variants:
  assumes ne: "k1 \<noteq> k2" and low: "lower k1 = lower k2"
  shows "distinct (map fst d) \<and> dups = get_duplicates (map snd d)
         \<and> (\<exists>a. (k1, a) \<in> set d \<and> (k2, a) \<in> set d) \<longrightarrow> find_abbrevs_while d dups = None"
proof (cases "find_abbrevs_while d dups")
  case None
  then show ?thesis by blast
next
  case (Some d')
  have "\<not> (distinct (map fst d) \<and> dups = get_duplicates (map snd d)
         \<and> (\<exists>a. (k1, a) \<in> set d \<and> (k2, a) \<in> set d))"
  proof (rule find_abbrevs_while.raw_induct[where
        P = "\<lambda>d dups d'. \<not> (distinct (map fst d) \<and> dups = get_duplicates (map snd d)
         \<and> (\<exists>a. (k1, a) \<in> set d \<and> (k2, a) \<in> set d))", OF _ Some])
    fix f d dups d'
    assume IH: "\<And>x b y. f x b = Some y \<Longrightarrow>
          \<not> (distinct (map fst x) \<and> b = get_duplicates (map snd x)
         \<and> (\<exists>a. (k1, a) \<in> set x \<and> (k2, a) \<in> set x))"
      and body: "(if dups \<noteq> [] then
        (let kind_to_abbrev' = fold (extend_abbrev dups) d d
         in f kind_to_abbrev' (get_duplicates (map snd kind_to_abbrev')))
      else Some d) = Some d'"
    show "\<not> (distinct (map fst d) \<and> dups = get_duplicates (map snd d)
         \<and> (\<exists>a. (k1, a) \<in> set d \<and> (k2, a) \<in> set d))"
    proof
      assume a: "distinct (map fst d) \<and> dups = get_duplicates (map snd d)
         \<and> (\<exists>a. (k1, a) \<in> set d \<and> (k2, a) \<in> set d)"
      then obtain t where t: "(k1, t) \<in> set d" "(k2, t) \<in> set d" by blast
      show False
      proof (cases "dups = []")
        case True
        with a have "get_duplicates (map snd d) = []" by simp
        then have "distinct (map snd d)" by (simp only: get_duplicates_empty_iff)
        then have "inj_on snd (set d)" by (simp add: distinct_map)
        from inj_onD[OF this _ t] ne show False by simp
      next
        case False
        let ?d = "map (extended dups) d"
        from False body a have "f ?d (get_duplicates (map snd ?d)) = Some d'"
          by (simp add: Let_def fold_extend_abbrev)
        from IH[OF this] have n: "\<not> (\<exists>a. (k1, a) \<in> set ?d \<and> (k2, a) \<in> set ?d)"
          using a by simp
        have e1: "extended dups (k1, t) \<in> set ?d" and e2: "extended dups (k2, t) \<in> set ?d"
          using t by auto
        have "extended dups (k1, t) = (k1, snd (extended dups (k1, t)))"
          by (metis fst_extended fst_conv prod.collapse)
        moreover have "extended dups (k2, t) = (k2, snd (extended dups (k1, t)))"
          by (metis fst_extended fst_conv prod.collapse extended_same_token[OF low])
        ultimately show False using n e1 e2 by metis
      qed
    qed
  qed
  then show ?thesis by blast
qed

text \<open>
  Whenever two different names of the input are equal after lowercasing (and no name
  is empty), \<open>find_abbrevs\<close> does not return.
\<close>

lemma find_abbrevs_diverges_on_case_variants:
  assumes "[] \<notin> set kinds" and "k1 \<in> set kinds" and "k2 \<in> set kinds"
    and "k1 \<noteq> k2" and "lower k1 = lower k2"
  shows "find_abbrevs kinds = None"
proof -
  from init_abbrevs_ok[OF assms(1), of "[]"] obtain d where d: "init_abbrevs kinds [] = Inr d"
    "distinct (map fst d)"
    by auto
  from assms have k: "k1 \<noteq> []" "k2 \<noteq> []" by auto
  have m1: "(k1, lower [hd k1]) \<in> set d"
    using init_abbrevs_mem[OF d(1) k(1)] assms(2) by simp
  have m2: "(k2, lower [hd k2]) \<in> set d"
    using init_abbrevs_mem[OF d(1) k(2)] assms(3) by simp
  have "lower [hd k1] = lower [hd k2]"
    using k assms(5) by (cases k1; cases k2) (simp_all add: lower_simps)
  with m1 m2 have "\<exists>a. (k1, a) \<in> set d \<and> (k2, a) \<in> set d" by auto
  with find_abbrevs_while_case_variants[OF assms(4,5), of d "get_duplicates (map snd d)"] d(2)
  have "find_abbrevs_while d (get_duplicates (map snd d)) = None" by blast
  then show ?thesis
    by (simp add: find_abbrevs_def d(1))
qed

text \<open>
  Conversely, \<open>find_abbrevs\<close> returns a mapping on no other input: with an empty name
  it raises, and with two names that are equal after lowercasing it does not return.
\<close>

lemma find_abbrevs_returns_only_if:
  assumes "find_abbrevs kinds = Some (Inr m)"
  shows "[] \<notin> set kinds \<and> inj_on lower (set kinds)"
proof -
  have ne: "[] \<notin> set kinds"
  proof
    assume "[] \<in> set kinds"
    from init_abbrevs_error[OF this, of "[]"] assms show False
      by (simp add: find_abbrevs_def)
  qed
  have "inj_on lower (set kinds)"
  proof (rule inj_onI)
    fix k1 k2 assume k: "k1 \<in> set kinds" "k2 \<in> set kinds" "lower k1 = lower k2"
    show "k1 = k2"
    proof (rule ccontr)
      assume "k1 \<noteq> k2"
      from find_abbrevs_diverges_on_case_variants[OF ne k(1,2) this k(3)] assms show False by simp
    qed
  qed
  with ne show ?thesis by simp
qed



section \<open>The merge of create_abbreviations\<close>












section \<open>validate_abbreviations\<close>

lemma fst_report: "fst (report violated msg st) = (fst st \<and> \<not> violated)"
  by (simp add: report_def)

lemma snd_report_empty: "snd (report violated msg st) = [] \<longleftrightarrow> snd st = [] \<and> \<not> violated"
  by (simp add: report_def)

lemma fst_fold_report:
  "fst (fold (\<lambda>x. report (P x) (M x)) xs st) = (fst st \<and> (\<forall>x \<in> set xs. \<not> P x))"
  by (induction xs arbitrary: st) (auto simp: fst_report)

lemma snd_fold_report_empty:
  "snd (fold (\<lambda>x. report (P x) (M x)) xs st) = [] \<longleftrightarrow> snd st = [] \<and> (\<forall>x \<in> set xs. \<not> P x)"
  by (induction xs arbitrary: st) (auto simp: snd_report_empty)

lemma distinct_map_remdups_iff:
  "distinct (map f (remdups xs)) \<longleftrightarrow> inj_on f (set xs)"
  by (simp add: distinct_map)

lemma set_snd_report: "set (snd (report violated msg st)) = set (snd st) \<union> (if violated then {msg} else {})"
  by (simp add: report_def)

lemma set_snd_fold_report:
  "set (snd (fold (\<lambda>x. report (P x) (M x)) xs st)) = set (snd st) \<union> {M x | x. x \<in> set xs \<and> P x}"
  by (induction xs arbitrary: st) (auto simp: set_snd_report)

lemma validate_abbreviations_diagnostics:
  "((\<exists>ks. DuplicatedKinds ks \<in> set (snd (validate_abbreviations mg))) \<longleftrightarrow>
       set (map metanode_identifier (metagraph_get_nodes mg))
         \<inter> set (map metaedge_kind (metagraph_get_edges mg)) \<noteq> {})
   \<and> ((\<exists>ts. DuplicatedMetanodeAbbrevs ts \<in> set (snd (validate_abbreviations mg))) \<longleftrightarrow>
       \<not> distinct (map snd (filter (\<lambda>(k, v). k \<in> set (map metanode_identifier (metagraph_get_nodes mg)))
                                (metagraph_kind_to_abbrev mg))))
   \<and> (LowercaseMetanodeAbbrev t \<in> set (snd (validate_abbreviations mg)) \<longleftrightarrow>
       list_ex (\<lambda>n. metanode_abbrev n = t \<and> \<not> isupper t) (metagraph_get_nodes mg))
   \<and> (UppercaseMetaedgeAbbrev t \<in> set (snd (validate_abbreviations mg)) \<longleftrightarrow>
       list_ex (\<lambda>e. metaedge_kind_abbrev e = t \<and> \<not> islower t) (metagraph_get_edges mg))
   \<and> ((\<exists>ts. DuplicatedMetaedgeAbbrevs ts \<in> set (snd (validate_abbreviations mg))) \<longleftrightarrow>
       \<not> inj_on metaedge_get_abbrev (set (metagraph_get_edges mg)))"
proof -
  have coll: "filter (\<lambda>k. k \<in> set (remdups (map metaedge_kind (remdups (metagraph_get_edges mg)))))
                (remdups (map metanode_identifier (remdups (metagraph_get_nodes mg)))) \<noteq> []
      \<longleftrightarrow> set (map metanode_identifier (metagraph_get_nodes mg))
            \<inter> set (map metaedge_kind (metagraph_get_edges mg)) \<noteq> {}"
    by (auto simp: filter_empty_conv)
  show ?thesis
    unfolding validate_abbreviations_def Let_def set_snd_report set_snd_fold_report coll
      get_duplicates_empty_iff distinct_map_remdups_iff
    by (auto simp: list_ex_iff)
qed

lemma validate_abbreviations_flag_and_output:
  "fst (validate_abbreviations mg) =
     (\<not> (set (map metanode_identifier (metagraph_get_nodes mg))
            \<inter> set (map metaedge_kind (metagraph_get_edges mg)) \<noteq> {}
         \<or> \<not> distinct (map snd (filter (\<lambda>(k, v). k \<in> set (map metanode_identifier (metagraph_get_nodes mg)))
                                  (metagraph_kind_to_abbrev mg)))
         \<or> list_ex (\<lambda>n. \<not> isupper (metanode_abbrev n)) (metagraph_get_nodes mg)
         \<or> list_ex (\<lambda>e. \<not> islower (metaedge_kind_abbrev e)) (metagraph_get_edges mg)
         \<or> \<not> inj_on metaedge_get_abbrev (set (metagraph_get_edges mg))))
   \<and> (snd (validate_abbreviations mg) = [] \<longleftrightarrow> fst (validate_abbreviations mg))"
proof -
  have coll: "filter (\<lambda>k. k \<in> set (remdups (map metaedge_kind (remdups (metagraph_get_edges mg)))))
                (remdups (map metanode_identifier (remdups (metagraph_get_nodes mg)))) \<noteq> []
      \<longleftrightarrow> set (map metanode_identifier (metagraph_get_nodes mg))
            \<inter> set (map metaedge_kind (metagraph_get_edges mg)) \<noteq> {}"
    by (auto simp: filter_empty_conv)
  have a: "fst (validate_abbreviations mg) =
     (\<not> (set (map metanode_identifier (metagraph_get_nodes mg))
            \<inter> set (map metaedge_kind (metagraph_get_edges mg)) \<noteq> {}
         \<or> \<not> distinct (map snd (filter (\<lambda>(k, v). k \<in> set (map metanode_identifier (metagraph_get_nodes mg)))
                                  (metagraph_kind_to_abbrev mg)))
         \<or> list_ex (\<lambda>n. \<not> isupper (metanode_abbrev n)) (metagraph_get_nodes mg)
         \<or> list_ex (\<lambda>e. \<not> islower (metaedge_kind_abbrev e)) (metagraph_get_edges mg)
         \<or> \<not> inj_on metaedge_get_abbrev (set (metagraph_get_edges mg))))"
    unfolding validate_abbreviations_def Let_def fst_report fst_fold_report coll
      get_duplicates_empty_iff distinct_map_remdups_iff
    by (auto simp: list_ex_iff)
  have b: "snd (validate_abbreviations mg) = [] \<longleftrightarrow> fst (validate_abbreviations mg)"
    unfolding validate_abbreviations_def Let_def fst_report fst_fold_report
      snd_report_empty snd_fold_report_empty
    by auto
  from a b show ?thesis by blast
qed

text \<open>
  C7. \<open>validate_abbreviations\<close> returns \<open>False\<close> exactly when one of its five checks fails:
  a node identifier equals an edge kind; two node kinds have the same abbreviation in
  \<open>kind_to_abbrev\<close>; the abbreviation of a metanode is not uppercase (\<open>isupper\<close>); the
  kind abbreviation of a metaedge is not lowercase (\<open>islower\<close>); two different metaedges
  have the same full abbreviation. Otherwise it returns \<open>True\<close>. Nothing is raised: the
  failures are printed, a diagnostic of each kind appears exactly when its check fails,
  and nothing is printed exactly when the result is \<open>True\<close>. The function only reads the
  metagraph; the model is a function of it that returns the flag and the output.
\<close>

theorem validate_abbreviations_flag:
  "fst (validate_abbreviations mg) =
     (\<not> (set (map metanode_identifier (metagraph_get_nodes mg))
            \<inter> set (map metaedge_kind (metagraph_get_edges mg)) \<noteq> {}
         \<or> \<not> distinct (map snd (filter (\<lambda>(k, v). k \<in> set (map metanode_identifier (metagraph_get_nodes mg)))
                                  (metagraph_kind_to_abbrev mg)))
         \<or> list_ex (\<lambda>n. \<not> isupper (metanode_abbrev n)) (metagraph_get_nodes mg)
         \<or> list_ex (\<lambda>e. \<not> islower (metaedge_kind_abbrev e)) (metagraph_get_edges mg)
         \<or> \<not> inj_on metaedge_get_abbrev (set (metagraph_get_edges mg))))
   \<and> (snd (validate_abbreviations mg) = [] \<longleftrightarrow> fst (validate_abbreviations mg))
   \<and> ((\<exists>ks. DuplicatedKinds ks \<in> set (snd (validate_abbreviations mg))) \<longleftrightarrow>
       set (map metanode_identifier (metagraph_get_nodes mg))
         \<inter> set (map metaedge_kind (metagraph_get_edges mg)) \<noteq> {})
   \<and> ((\<exists>ts. DuplicatedMetanodeAbbrevs ts \<in> set (snd (validate_abbreviations mg))) \<longleftrightarrow>
       \<not> distinct (map snd (filter (\<lambda>(k, v). k \<in> set (map metanode_identifier (metagraph_get_nodes mg)))
                                (metagraph_kind_to_abbrev mg))))
   \<and> (LowercaseMetanodeAbbrev t \<in> set (snd (validate_abbreviations mg)) \<longleftrightarrow>
       list_ex (\<lambda>n. metanode_abbrev n = t \<and> \<not> isupper t) (metagraph_get_nodes mg))
   \<and> (UppercaseMetaedgeAbbrev t \<in> set (snd (validate_abbreviations mg)) \<longleftrightarrow>
       list_ex (\<lambda>e. metaedge_kind_abbrev e = t \<and> \<not> islower t) (metagraph_get_edges mg))
   \<and> ((\<exists>ts. DuplicatedMetaedgeAbbrevs ts \<in> set (snd (validate_abbreviations mg))) \<longleftrightarrow>
       \<not> inj_on metaedge_get_abbrev (set (metagraph_get_edges mg)))"
  using validate_abbreviations_flag_and_output[of mg] validate_abbreviations_diagnostics[of mg t]
  by blast

text \<open>
  Witness of C7: a metagraph that passes the five checks is valid, and the same
  metagraph with the lowercase abbreviation g for the node kind gene is not.
\<close>

theorem validate_abbreviations_flag_witness:
  "fst (validate_abbreviations
     \<lparr>metagraph_node_dict_keys = [], metagraph_edge_dict_keys = [],
      metagraph_get_nodes = [\<lparr>metanode_identifier = ''gene'', metanode_abbrev = ''G''\<rparr>,
                             \<lparr>metanode_identifier = ''disease'', metanode_abbrev = ''D''\<rparr>],
      metagraph_get_edges = [\<lparr>metaedge_get_id = (''gene'', ''disease'', ''associates'', ''both''),
                               metaedge_kind = ''associates'', metaedge_kind_abbrev = ''a'',
                               metaedge_get_abbrev = ''GaD''\<rparr>],
      metagraph_kind_to_abbrev = [(''gene'', ''G''), (''disease'', ''D''), (''associates'', ''a'')]\<rparr>)
   \<and> \<not> fst (validate_abbreviations
     \<lparr>metagraph_node_dict_keys = [], metagraph_edge_dict_keys = [],
      metagraph_get_nodes = [\<lparr>metanode_identifier = ''gene'', metanode_abbrev = ''g''\<rparr>,
                             \<lparr>metanode_identifier = ''disease'', metanode_abbrev = ''D''\<rparr>],
      metagraph_get_edges = [\<lparr>metaedge_get_id = (''gene'', ''disease'', ''associates'', ''both''),
                               metaedge_kind = ''associates'', metaedge_kind_abbrev = ''a'',
                               metaedge_get_abbrev = ''GaD''\<rparr>],
      metagraph_kind_to_abbrev = [(''gene'', ''g''), (''disease'', ''D''), (''associates'', ''a'')]\<rparr>)"
  using validate_abbreviations_flag[of
     "\<lparr>metagraph_node_dict_keys = [], metagraph_edge_dict_keys = [],
      metagraph_get_nodes = [\<lparr>metanode_identifier = ''gene'', metanode_abbrev = ''G''\<rparr>,
                             \<lparr>metanode_identifier = ''disease'', metanode_abbrev = ''D''\<rparr>],
      metagraph_get_edges = [\<lparr>metaedge_get_id = (''gene'', ''disease'', ''associates'', ''both''),
                               metaedge_kind = ''associates'', metaedge_kind_abbrev = ''a'',
                               metaedge_get_abbrev = ''GaD''\<rparr>],
      metagraph_kind_to_abbrev = [(''gene'', ''G''), (''disease'', ''D''), (''associates'', ''a'')]\<rparr>"]
    validate_abbreviations_flag[of
     "\<lparr>metagraph_node_dict_keys = [], metagraph_edge_dict_keys = [],
      metagraph_get_nodes = [\<lparr>metanode_identifier = ''gene'', metanode_abbrev = ''g''\<rparr>,
                             \<lparr>metanode_identifier = ''disease'', metanode_abbrev = ''D''\<rparr>],
      metagraph_get_edges = [\<lparr>metaedge_get_id = (''gene'', ''disease'', ''associates'', ''both''),
                               metaedge_kind = ''associates'', metaedge_kind_abbrev = ''a'',
                               metaedge_get_abbrev = ''GaD''\<rparr>],
      metagraph_kind_to_abbrev = [(''gene'', ''g''), (''disease'', ''D''), (''associates'', ''a'')]\<rparr>"]
  by (simp add: isupper_def islower_def ascii_uppercase_def ascii_lowercase_def)

end
